theory Spec2Isabelle
  imports Main "HOL-Library.Word"
begin

unbundle bit_operations_syntax

section \<open>Fan controller firmware (firmware/main.c)\<close>

text \<open>
  The firmware is one C file: a start-up hook \<open>get_rstflr\<close> and \<open>main\<close>, which
  either enters a diagnostic blink loop or the control loop. All variables are
  \<open>uint8_t\<close>; they are modelled as 8-bit words. Registers that the hardware changes
  behind the program's back (\<open>WDTCSR\<close>, \<open>ADCL\<close>, \<open>PINB\<close>) are volatile: every read
  of one is an input of the loop iteration that performs it.
\<close>

subsection \<open>Constants and macros\<close>

type_synonym u8 = "8 word"
type_synonym u16 = "16 word"

definition FAN_OVERRIDE_NONE :: u8 where "FAN_OVERRIDE_NONE = 0"
definition FAN_OVERRIDE_ON :: u8 where "FAN_OVERRIDE_ON = 1"
definition FAN_OVERRIDE_OFF :: u8 where "FAN_OVERRIDE_OFF = 2"

definition FAN_COOL_TIME :: int where "FAN_COOL_TIME = 125"
definition TEMP_MEASURE_INTERVAL :: int where "TEMP_MEASURE_INTERVAL = 32"
definition HOT_VAL :: int where "HOT_VAL = 23"
definition COOL_VAL :: int where "COOL_VAL = 27"

text \<open>
  Bit numbers of the device header \<open><avr/io.h>\<close> for the ATtiny4/5/9/10, the AVR
  family that has the registers \<open>RSTFLR\<close> and \<open>PUEB\<close> the program uses.
\<close>

definition PORTB0 :: nat where "PORTB0 = 0"
definition PINB1 :: nat where "PINB1 = 1"
definition WDRF :: nat where "WDRF = 3"
definition WDIE :: nat where "WDIE = 6"

text \<open>\<open>_BV(n)\<close> is \<open>1 << n\<close>.\<close>

definition BV :: "nat \<Rightarrow> u8" where
  "BV n = push_bit n 1"

text \<open>
  C arithmetic on \<open>uint8_t\<close> operands is done in \<open>int\<close> (integer promotion); the
  result is reduced modulo 256 when it is cast or assigned to a \<open>uint8_t\<close>.
\<close>

definition u8_cast :: "int \<Rightarrow> u8" where
  "u8_cast x = word_of_int x"

text \<open>\<open>(uint8_t)(a - b)\<close>, the age computations of lines 118 and 181.\<close>

definition age :: "u8 \<Rightarrow> u8 \<Rightarrow> u8" where
  "age a b = u8_cast (uint a - uint b)"

text \<open>\<open>now++\<close> (line 115).\<close>

definition incr :: "u8 \<Rightarrow> u8" where
  "incr a = u8_cast (uint a + 1)"

text \<open>\<open>now - FAN_COOL_TIME\<close> as assigned to a \<open>uint8_t\<close> (lines 173 and 186).\<close>

definition rewound :: "u8 \<Rightarrow> u8" where
  "rewound a = u8_cast (uint a - FAN_COOL_TIME)"

subsection \<open>State of the control loop\<close>

record state =
  now :: u8
  lastMeasureTemp :: u8
  lastHotTime :: u8
  hot :: u8
  btnIsPressed :: u8
  fanOverride :: u8
  PORTB :: u8

text \<open>
  The volatile reads of one loop iteration: \<open>WDTCSR\<close> at line 112, \<open>ADCL\<close> at line
  137 (used only when a sample is taken), \<open>PINB\<close> at line 155 and again at line 176.
\<close>

record inputs =
  in_WDTCSR :: u8
  in_ADCL :: u8
  in_PINB_155 :: u8
  in_PINB_176 :: u8

text \<open>
  \<open>FAN_ON()\<close> is \<open>PORTB |= _BV(PORTB0)\<close> and \<open>FAN_OFF()\<close> is
  \<open>PORTB &= ~_BV(PORTB0)\<close>: functions from the old register value to the new one.
\<close>

definition FAN_ON :: "u8 \<Rightarrow> u8" where
  "FAN_ON portb = portb OR BV PORTB0"

definition FAN_OFF :: "u8 \<Rightarrow> u8" where
  "FAN_OFF portb = portb AND NOT (BV PORTB0)"

definition BTN_ISPRESSED :: "u8 \<Rightarrow> bool" where
  "BTN_ISPRESSED pinb = (pinb AND BV PINB1 = 0)"

definition WDT_TIMEDOUT :: "u8 \<Rightarrow> bool" where
  "WDT_TIMEDOUT wdtcsr = (wdtcsr AND BV WDIE = 0)"

text \<open>The fan output is pin PB0.\<close>

definition fan_is_on :: "u8 \<Rightarrow> bool" where
  "fan_is_on portb = bit portb PORTB0"

subsection \<open>The body of the control loop (lines 108 to 202)\<close>

text \<open>Lines 112 to 116: consume the watchdog tick.\<close>

definition tick_step :: "inputs \<Rightarrow> state \<Rightarrow> state" where
  "tick_step i s =
     (if WDT_TIMEDOUT (in_WDTCSR i) then s\<lparr>now := incr (now s)\<rparr> else s)"

text \<open>
  Lines 123 and 144 to 151: what a sample with ADC reading \<open>val\<close> does to the
  variables. The pull-up, the settle delay and the conversion itself touch only
  hardware registers that no variable depends on.
\<close>

definition sample :: "u8 \<Rightarrow> state \<Rightarrow> state" where
  "sample val s =
     (let s1 = s\<lparr>lastMeasureTemp := now s\<rparr>;
          s2 = (if uint val > COOL_VAL then s1\<lparr>hot := 0\<rparr>
                else if uint val < HOT_VAL then s1\<lparr>hot := 1\<rparr>
                else s1)
      in if hot s2 \<noteq> 0 then s2\<lparr>lastHotTime := now s2\<rparr> else s2)"

text \<open>Line 118: is a sample due?\<close>

definition sample_due :: "state \<Rightarrow> bool" where
  "sample_due s = (uint (age (now s) (lastMeasureTemp s)) \<ge> TEMP_MEASURE_INTERVAL)"

definition sample_step :: "inputs \<Rightarrow> state \<Rightarrow> state" where
  "sample_step i s = (if sample_due s then sample (in_ADCL i) s else s)"

text \<open>Lines 155 to 177: the button.\<close>

definition press_branch :: "state \<Rightarrow> state" where
  "press_branch s =
     (let s1 = s\<lparr>btnIsPressed := 1\<rparr>
      in if fanOverride s1 = FAN_OVERRIDE_NONE then
           s1\<lparr>fanOverride := FAN_OVERRIDE_ON, PORTB := FAN_ON (PORTB s1)\<rparr>
         else if fanOverride s1 = FAN_OVERRIDE_ON then
           s1\<lparr>fanOverride := FAN_OVERRIDE_OFF, PORTB := FAN_OFF (PORTB s1)\<rparr>
         else
           (let s2 = s1\<lparr>fanOverride := FAN_OVERRIDE_NONE\<rparr>
            in if hot s2 = 0
               then s2\<lparr>lastHotTime := rewound (now s2)\<rparr>
               else s2))"

definition release_branch :: "state \<Rightarrow> state" where
  "release_branch s = s\<lparr>btnIsPressed := 0\<rparr>"

definition press_edge :: "inputs \<Rightarrow> state \<Rightarrow> bool" where
  "press_edge i s = (BTN_ISPRESSED (in_PINB_155 i) \<and> btnIsPressed s = 0)"

definition release_edge :: "inputs \<Rightarrow> state \<Rightarrow> bool" where
  "release_edge i s =
     (\<not> press_edge i s \<and> \<not> BTN_ISPRESSED (in_PINB_176 i) \<and> btnIsPressed s \<noteq> 0)"

definition input_step :: "inputs \<Rightarrow> state \<Rightarrow> state" where
  "input_step i s =
     (if BTN_ISPRESSED (in_PINB_155 i) \<and> btnIsPressed s = 0 then press_branch s
      else if \<not> BTN_ISPRESSED (in_PINB_176 i) \<and> btnIsPressed s \<noteq> 0 then release_branch s
      else s)"

text \<open>Lines 179 to 188: the automatic decision.\<close>

definition fan_decide :: "state \<Rightarrow> state" where
  "fan_decide s =
     (if fanOverride s = FAN_OVERRIDE_NONE then
        (if hot s \<noteq> 0 \<or> uint (age (now s) (lastHotTime s)) < FAN_COOL_TIME
         then s\<lparr>PORTB := FAN_ON (PORTB s)\<rparr>
         else s\<lparr>PORTB := FAN_OFF (PORTB s),
                lastHotTime := rewound (now s)\<rparr>)
      else s)"

text \<open>
  One iteration. The sleep of lines 191 to 201 changes no variable; it only
  decides when the next iteration starts.
\<close>

definition before_input :: "inputs \<Rightarrow> state \<Rightarrow> state" where
  "before_input i s = sample_step i (tick_step i s)"

definition before_decision :: "inputs \<Rightarrow> state \<Rightarrow> state" where
  "before_decision i s = input_step i (before_input i s)"

definition loop_body :: "inputs \<Rightarrow> state \<Rightarrow> state" where
  "loop_body i s = fan_decide (before_decision i s)"

text \<open>The loop, run over the inputs of finitely many iterations.\<close>

fun run :: "inputs list \<Rightarrow> state \<Rightarrow> state" where
  "run [] s = s"
| "run (i # is) s = run is (loop_body i s)"

text \<open>
  Lines 70 to 75: the variables at the start of \<open>main\<close>. \<open>PORTB\<close> is not written
  before the loops; its value at entry is a parameter.
\<close>

definition init_state :: "u8 \<Rightarrow> state" where
  "init_state portb =
     \<lparr>now = 0, lastMeasureTemp = 0,
      lastHotTime = u8_cast ((0 - FAN_COOL_TIME) + 31),
      hot = 0, btnIsPressed = 0, fanOverride = FAN_OVERRIDE_NONE, PORTB = portb\<rparr>"

text \<open>The number of watchdog ticks consumed by a sequence of iterations.\<close>

definition ticks :: "inputs list \<Rightarrow> nat" where
  "ticks is = length (filter (\<lambda>i. WDT_TIMEDOUT (in_WDTCSR i)) is)"

text \<open>
  A stretch of iterations during which \<open>hot\<close> is false and \<open>fanOverride\<close> is
  \<open>FAN_OVERRIDE_NONE\<close> at the end of every iteration.
\<close>

fun stays_cool :: "inputs list \<Rightarrow> state \<Rightarrow> bool" where
  "stays_cool [] s = True"
| "stays_cool (i # is) s =
     (hot (loop_body i s) = 0 \<and> fanOverride (loop_body i s) = FAN_OVERRIDE_NONE
      \<and> stays_cool is (loop_body i s))"

subsection \<open>The start-up hook (lines 45 to 52)\<close>

text \<open>
  \<open>get_rstflr\<close> runs from section \<open>.init3\<close>, before \<open>main\<close>. It copies the reset
  flags to \<open>rstflr_mirror\<close> and clears the register. \<open>wdt_enable(WDTO_60MS)\<close>
  selects the watchdog period; \<open>WDTO_60MS_us\<close> is that period in microseconds.
\<close>

record reset_regs =
  RSTFLR :: u8
  rstflr_mirror :: u8

definition get_rstflr :: "reset_regs \<Rightarrow> reset_regs" where
  "get_rstflr r = r\<lparr>rstflr_mirror := RSTFLR r, RSTFLR := 0\<rparr>"

definition WDTO_60MS_us :: nat where "WDTO_60MS_us = 60000"

subsection \<open>The diagnostic blink loop (lines 80 to 104)\<close>

text \<open>
  The blink loop is two counting loops inside \<open>while(1)\<close>. Its state is the loop
  it is in, the counter \<open>i\<close> (a \<open>uint16_t\<close>) and \<open>PORTB\<close>. Two clocks are carried
  along to state the timing: the sum of the arguments of all \<open>_delay_us\<close> calls so
  far, and the same sum since the last \<open>WDT_INT_RESET()\<close>. Only \<open>_delay_us\<close> takes
  time in this model.
\<close>

datatype blink_phase = Delay_2000ms | Delay_500ms

record diag =
  d_phase :: blink_phase
  d_i :: u16
  d_PORTB :: u8
  d_elapsed_us :: nat
  d_since_wdt_us :: nat

definition WDT_INT_RESET :: "diag \<Rightarrow> diag" where
  "WDT_INT_RESET d = d\<lparr>d_since_wdt_us := 0\<rparr>"

definition delay_us :: "nat \<Rightarrow> diag \<Rightarrow> diag" where
  "delay_us n d =
     d\<lparr>d_elapsed_us := d_elapsed_us d + n, d_since_wdt_us := d_since_wdt_us d + n\<rparr>"

text \<open>
  One step of the blink loop: either one pass through the body of the counting
  loop it is in (\<open>WDT_INT_RESET(); _delay_us(100); i++\<close>), or, when the loop
  condition fails, the statement after it (\<open>FAN_ON()\<close>, line 92, or \<open>FAN_OFF()\<close>,
  line 102) and the entry into the other counting loop with \<open>i = 0\<close>.
\<close>

definition diag_step :: "diag \<Rightarrow> diag" where
  "diag_step d =
     (case d_phase d of
        Delay_2000ms \<Rightarrow>
          if unat (d_i d) < 20000
          then (delay_us 100 (WDT_INT_RESET d))\<lparr>d_i := d_i d + 1\<rparr>
          else d\<lparr>d_PORTB := FAN_ON (d_PORTB d), d_phase := Delay_500ms, d_i := 0\<rparr>
      | Delay_500ms \<Rightarrow>
          if unat (d_i d) < 5000
          then (delay_us 100 (WDT_INT_RESET d))\<lparr>d_i := d_i d + 1\<rparr>
          else d\<lparr>d_PORTB := FAN_OFF (d_PORTB d), d_phase := Delay_2000ms, d_i := 0\<rparr>)"

subsection \<open>The whole program\<close>

text \<open>
  \<open>main\<close> never returns. Its configuration is either in the blink loop or in the
  control loop; line 80 chooses, once, from \<open>rstflr_mirror\<close>.
\<close>

datatype config = Diagnostic diag | Control state

definition main_start :: "u8 \<Rightarrow> u8 \<Rightarrow> config" where
  "main_start mirror portb =
     (if mirror AND BV WDRF \<noteq> 0
      then Diagnostic \<lparr>d_phase = Delay_2000ms, d_i = 0, d_PORTB = portb,
                       d_elapsed_us = 0, d_since_wdt_us = 0\<rparr>
      else Control (init_state portb))"

fun step :: "inputs \<Rightarrow> config \<Rightarrow> config" where
  "step i (Diagnostic d) = Diagnostic (diag_step d)"
| "step i (Control s) = Control (loop_body i s)"

fun exec :: "inputs list \<Rightarrow> config \<Rightarrow> config" where
  "exec [] c = c"
| "exec (i # is) c = exec is (step i c)"

definition power_up :: "reset_regs \<Rightarrow> u8 \<Rightarrow> config" where
  "power_up r portb = main_start (rstflr_mirror (get_rstflr r)) portb"

fun in_control_loop :: "config \<Rightarrow> bool" where
  "in_control_loop (Control s) = True"
| "in_control_loop (Diagnostic d) = False"

subsection \<open>Invariants of the control loop\<close>

text \<open>The number of ticks one iteration consumes: 1 or 0.\<close>

definition tick_of :: "inputs \<Rightarrow> nat" where
  "tick_of i = (if WDT_TIMEDOUT (in_WDTCSR i) then 1 else 0)"

text \<open>
  While an override is in force the fan pin agrees with it, and \<open>fanOverride\<close>
  holds one of its three values.
\<close>

definition forced_ok :: "state \<Rightarrow> bool" where
  "forced_ok s =
     ((fanOverride s = FAN_OVERRIDE_NONE \<or> fanOverride s = FAN_OVERRIDE_ON
        \<or> fanOverride s = FAN_OVERRIDE_OFF)
      \<and> (if fanOverride s = FAN_OVERRIDE_ON then fan_is_on (PORTB s)
         else if fanOverride s = FAN_OVERRIDE_OFF then \<not> fan_is_on (PORTB s)
         else True))"

text \<open>
  The first 31 ticks after power-on with the button up: \<open>t\<close> ticks have been
  consumed and nothing but \<open>now\<close> and the fan pin has changed.
\<close>

definition boot_window :: "nat \<Rightarrow> state \<Rightarrow> bool" where
  "boot_window t s =
     (uint (now s) = int t \<and> lastMeasureTemp s = 0 \<and> lastHotTime s = 162 \<and> hot s = 0
      \<and> btnIsPressed s = 0 \<and> fanOverride s = FAN_OVERRIDE_NONE)"

text \<open>
  At the end of every iteration the last sample is less than 32 ticks old, and
  while \<open>hot\<close> is set \<open>lastHotTime\<close> is the tick of that sample.
\<close>

definition sampled_recently :: "state \<Rightarrow> bool" where
  "sampled_recently s =
     (uint (now s - lastMeasureTemp s) < 32
      \<and> (if hot s \<noteq> 0 then lastHotTime s = lastMeasureTemp s else True))"

text \<open>
  The cool-down: \<open>hot\<close> is clear, there is no override, and \<open>a\<close> is the age of
  \<open>lastHotTime\<close> in ticks, had it not been rewound. Up to age 124 the fan pin is
  on; from age 125 on it is off and \<open>lastHotTime\<close> is kept 125 ticks behind.
\<close>

definition cooling :: "nat \<Rightarrow> state \<Rightarrow> bool" where
  "cooling a s =
     (hot s = 0 \<and> fanOverride s = FAN_OVERRIDE_NONE
      \<and> (if a < 125
         then uint (now s - lastHotTime s) = int a \<and> fan_is_on (PORTB s)
         else uint (now s - lastHotTime s) = 125 \<and> \<not> fan_is_on (PORTB s)))"

subsection \<open>Invariant of the blink loop\<close>

text \<open>
  After \<open>n\<close> steps of the blink loop entered with \<open>PORTB = p\<close>: the last
  \<open>WDT_INT_RESET()\<close> is at most 100 us of delay ago; at least every other step
  was a delay of 100 us; in the first counting loop the delays so far, modulo the
  period of 2.5 s, are \<open>100 * i\<close> us and the fan pin is off (or still as it was at
  entry, during the first pass); in the second they are 2 s plus \<open>100 * i\<close> us
  and the fan pin is on.
\<close>

definition blink_inv :: "u8 \<Rightarrow> nat \<Rightarrow> diag \<Rightarrow> bool" where
  "blink_inv p n d =
     (d_since_wdt_us d \<le> 100
      \<and> n \<le> 2 * (d_elapsed_us d div 100) + (if d_i d = 0 then 1 else 0)
      \<and> (case d_phase d of
           Delay_2000ms \<Rightarrow>
             unat (d_i d) \<le> 20000
             \<and> d_elapsed_us d mod 2500000 = (100 * unat (d_i d)) mod 2500000
             \<and> (if fan_is_on (d_PORTB d)
                then fan_is_on p \<and> d_elapsed_us d = 100 * unat (d_i d) else True)
         | Delay_500ms \<Rightarrow>
             unat (d_i d) \<le> 5000
             \<and> d_elapsed_us d mod 2500000 = (2000000 + 100 * unat (d_i d)) mod 2500000
             \<and> fan_is_on (d_PORTB d)))"

subsection \<open>Inputs of single iterations, for concrete runs\<close>

text \<open>
  In each of them the watchdog has fired (\<open>WDIE\<close> reads 0), so the iteration
  consumes a tick. \<open>PINB = 2\<close> is the button up, \<open>PINB = 0\<close> the button down.
  A lower ADC reading is a hotter sensor.
\<close>

definition tick_cold :: inputs where
  "tick_cold = \<lparr>in_WDTCSR = 0, in_ADCL = 255, in_PINB_155 = 2, in_PINB_176 = 2\<rparr>"

definition tick_hot :: inputs where
  "tick_hot = \<lparr>in_WDTCSR = 0, in_ADCL = 0, in_PINB_155 = 2, in_PINB_176 = 2\<rparr>"

definition tick_mild :: inputs where
  "tick_mild = \<lparr>in_WDTCSR = 0, in_ADCL = 25, in_PINB_155 = 2, in_PINB_176 = 2\<rparr>"

definition tick_press :: inputs where
  "tick_press = \<lparr>in_WDTCSR = 0, in_ADCL = 255, in_PINB_155 = 0, in_PINB_176 = 0\<rparr>"

section \<open>Arithmetic of the tick counter\<close>

lemma age_eq: "age a b = a - b"
  by (simp add: age_def u8_cast_def)

lemma incr_eq: "incr a = a + 1"
  by (simp add: incr_def u8_cast_def)

lemma rewound_eq: "rewound a = a - 125"
  by (simp add: rewound_def u8_cast_def FAN_COOL_TIME_def)

lemma incr_funpow: "(incr ^^ k) t = t + of_nat k"
  by (induction k) (simp_all add: incr_eq)

lemma uint_of_nat_u8: "uint (of_nat k :: u8) = int k mod 256"
  by (simp add: unsigned_of_nat take_bit_eq_mod zmod_int)

lemma uint_sub_u8: "uint (a - b :: u8) = (uint a - uint b) mod 256"
  by (simp add: uint_word_arith_bintrs take_bit_eq_mod)

lemma uint_age: "uint (age a b) = (uint a - uint b) mod 256"
  by (simp add: age_eq uint_sub_u8)

lemma age_after_rewind: "uint (age a (rewound a)) = 125"
  by (simp add: age_eq rewound_eq)

lemma uint_rewound: "uint (rewound a) = (uint a - 125) mod 256"
  by (simp add: rewound_eq uint_sub_u8)

lemma mod256_neg: "- 256 \<le> (x::int) \<Longrightarrow> x < 0 \<Longrightarrow> x mod 256 = x + 256"
proof -
  assume a: "- 256 \<le> x" "x < 0"
  have "(x + 256) mod 256 = x + 256"
    by (rule mod_pos_pos_trivial) (use a in simp_all)
  then show ?thesis by simp
qed

lemma uint_succ_u8: "uint (a :: u8) < 255 \<Longrightarrow> uint (a + 1) = uint a + 1"
proof -
  assume a: "uint a < 255"
  have "uint (a + 1) = (uint a + 1) mod 256"
    by (simp add: uint_word_arith_bintrs take_bit_eq_mod)
  also have "\<dots> = uint a + 1"
    by (rule mod_pos_pos_trivial) (use a in simp_all)
  finally show ?thesis .
qed

lemma uint_tick_u8:
  "uint (a :: u8) < 255 \<Longrightarrow> uint (a + of_nat (tick_of i)) = uint a + int (tick_of i)"
  by (simp add: tick_of_def uint_succ_u8)

text \<open>
  C5. Let \<open>lastHotTime\<close> be recorded as the value \<open>t\<close> of \<open>now\<close>, and let \<open>now\<close> be
  incremented \<open>k\<close> times afterwards (wrapping at 256 as \<open>now++\<close> does). Then the age
  \<open>(uint8_t)(now - lastHotTime)\<close>, read as an unsigned number, is \<open>k mod 256\<close>: the
  elapsed ticks modulo 256. For any two counter values it is their mathematical
  difference modulo 256, never negative, and at \<open>now = 2\<close>, \<open>lastHotTime = 254\<close>
  it is 4.
\<close>

theorem age_elapsed_mod_256:
  "uint (age ((incr ^^ k) t) t) = int k mod 256
   \<and> uint (age a b) = (uint a - uint b) mod 256
   \<and> 0 \<le> uint (age a b) \<and> uint (age a b) < 256
   \<and> age 2 254 = 4"
proof -
  have "uint (age ((incr ^^ k) t) t) = int k mod 256"
    by (simp add: age_eq incr_funpow uint_of_nat_u8)
  moreover have "uint (age a b) = (uint a - uint b) mod 256"
    by (simp add: age_eq uint_sub_u8)
  moreover have "uint (age a b) < 256"
    using uint_bounded [of "age a b"] by simp
  moreover have "age 2 254 = 4"
    by (simp add: age_eq)
  ultimately show ?thesis by simp
qed

section \<open>What each step does to each variable\<close>

lemmas override_defs = FAN_OVERRIDE_NONE_def FAN_OVERRIDE_ON_def FAN_OVERRIDE_OFF_def

lemma fan_is_on_FAN_ON [simp]: "fan_is_on (FAN_ON p)"
  by (simp add: fan_is_on_def FAN_ON_def BV_def PORTB0_def bit_or_iff)

lemma fan_is_on_FAN_OFF [simp]: "\<not> fan_is_on (FAN_OFF p)"
  by (simp add: fan_is_on_def FAN_OFF_def BV_def PORTB0_def bit_and_iff bit_not_iff)

lemma tick_step_fields [simp]:
  "now (tick_step i s) = (if WDT_TIMEDOUT (in_WDTCSR i) then now s + 1 else now s)"
  "lastMeasureTemp (tick_step i s) = lastMeasureTemp s"
  "lastHotTime (tick_step i s) = lastHotTime s"
  "hot (tick_step i s) = hot s"
  "btnIsPressed (tick_step i s) = btnIsPressed s"
  "fanOverride (tick_step i s) = fanOverride s"
  "PORTB (tick_step i s) = PORTB s"
  by (simp_all add: tick_step_def incr_eq)

lemma sample_fields [simp]:
  "now (sample v s) = now s"
  "lastMeasureTemp (sample v s) = now s"
  "hot (sample v s) = (if uint v > 27 then 0 else if uint v < 23 then 1 else hot s)"
  "lastHotTime (sample v s) = (if hot (sample v s) \<noteq> 0 then now s else lastHotTime s)"
  "btnIsPressed (sample v s) = btnIsPressed s"
  "fanOverride (sample v s) = fanOverride s"
  "PORTB (sample v s) = PORTB s"
  by (simp_all add: sample_def Let_def COOL_VAL_def HOT_VAL_def)

lemma sample_due_iff: "sample_due s = (32 \<le> uint (now s - lastMeasureTemp s))"
  by (simp add: sample_due_def age_eq TEMP_MEASURE_INTERVAL_def)

lemma sample_step_fields [simp]:
  "now (sample_step i s) = now s"
  "btnIsPressed (sample_step i s) = btnIsPressed s"
  "fanOverride (sample_step i s) = fanOverride s"
  "PORTB (sample_step i s) = PORTB s"
  by (simp_all add: sample_step_def)

lemma before_input_fields [simp]:
  "btnIsPressed (before_input i s) = btnIsPressed s"
  "fanOverride (before_input i s) = fanOverride s"
  "PORTB (before_input i s) = PORTB s"
  "now (before_input i s) = (if WDT_TIMEDOUT (in_WDTCSR i) then now s + 1 else now s)"
  by (simp_all add: before_input_def)

lemma press_edge_before_input [simp]: "press_edge i (before_input i s) = press_edge i s"
  by (simp add: press_edge_def)

lemma release_edge_before_input [simp]: "release_edge i (before_input i s) = release_edge i s"
  by (simp add: release_edge_def)

lemma input_step_cases:
  "input_step i s =
     (if press_edge i s then press_branch s
      else if release_edge i s then release_branch s else s)"
  by (simp add: input_step_def press_edge_def release_edge_def)

lemma fan_decide_fields [simp]:
  "now (fan_decide s) = now s"
  "lastMeasureTemp (fan_decide s) = lastMeasureTemp s"
  "hot (fan_decide s) = hot s"
  "btnIsPressed (fan_decide s) = btnIsPressed s"
  "fanOverride (fan_decide s) = fanOverride s"
  by (simp_all add: fan_decide_def)

lemma press_branch_fields [simp]:
  "now (press_branch s) = now s"
  "lastMeasureTemp (press_branch s) = lastMeasureTemp s"
  "hot (press_branch s) = hot s"
  "btnIsPressed (press_branch s) = 1"
  "fanOverride (press_branch s) =
     (if fanOverride s = FAN_OVERRIDE_NONE then FAN_OVERRIDE_ON
      else if fanOverride s = FAN_OVERRIDE_ON then FAN_OVERRIDE_OFF
      else FAN_OVERRIDE_NONE)"
  by (simp_all add: press_branch_def Let_def)

lemma input_step_fields [simp]:
  "now (input_step i s) = now s"
  "lastMeasureTemp (input_step i s) = lastMeasureTemp s"
  "hot (input_step i s) = hot s"
  by (simp_all add: input_step_cases release_branch_def)

lemma loop_body_override:
  "fanOverride (loop_body i s) =
     (if press_edge i s then
        (if fanOverride s = FAN_OVERRIDE_NONE then FAN_OVERRIDE_ON
         else if fanOverride s = FAN_OVERRIDE_ON then FAN_OVERRIDE_OFF
         else FAN_OVERRIDE_NONE)
      else fanOverride s)"
  by (simp add: loop_body_def before_decision_def input_step_cases release_branch_def)

lemma loop_body_btn:
  "btnIsPressed (loop_body i s) =
     (if press_edge i s then 1 else if release_edge i s then 0 else btnIsPressed s)"
  by (simp add: loop_body_def before_decision_def input_step_cases release_branch_def)

lemma loop_body_now:
  "now (loop_body i s) = (if WDT_TIMEDOUT (in_WDTCSR i) then now s + 1 else now s)"
  by (simp add: loop_body_def before_decision_def)

lemma PORTB_press_branch:
  "PORTB (press_branch s) =
     (if fanOverride s = FAN_OVERRIDE_NONE then FAN_ON (PORTB s)
      else if fanOverride s = FAN_OVERRIDE_ON then FAN_OFF (PORTB s)
      else PORTB s)"
  by (simp add: press_branch_def Let_def)

lemma PORTB_before_decision:
  "PORTB (before_decision i s) =
     (if press_edge i s then PORTB (press_branch (before_input i s)) else PORTB s)"
  by (simp add: before_decision_def input_step_cases release_branch_def)

lemma PORTB_loop_body_forced:
  assumes "fanOverride (loop_body i s) \<noteq> FAN_OVERRIDE_NONE"
  shows "PORTB (loop_body i s) = PORTB (before_decision i s)"
proof -
  have "fanOverride (before_decision i s) \<noteq> FAN_OVERRIDE_NONE"
    using assms by (simp add: loop_body_def)
  then show ?thesis
    by (simp add: loop_body_def fan_decide_def)
qed

lemma hot_loop_body:
  "hot (loop_body i s) =
     (if sample_due (tick_step i s)
      then (if uint (in_ADCL i) > 27 then 0 else if uint (in_ADCL i) < 23 then 1 else hot s)
      else hot s)"
  by (simp add: loop_body_def before_decision_def before_input_def sample_step_def)

lemma run_append: "run (xs @ ys) s = run ys (run xs s)"
  by (induction xs arbitrary: s) simp_all

lemma ticks_Nil [simp]: "ticks [] = 0"
  by (simp add: ticks_def)

lemma ticks_Cons [simp]: "ticks (i # is) = tick_of i + ticks is"
  by (simp add: ticks_def tick_of_def)

lemma loop_body_now_tick: "now (loop_body i s) = now s + of_nat (tick_of i)"
  by (simp add: loop_body_now tick_of_def)

lemma run_now: "now (run is s) = now s + of_nat (ticks is)"
  by (induction "is" arbitrary: s) (simp_all add: loop_body_now_tick add.assoc)

lemma init_state_fields:
  "init_state p = \<lparr>now = 0, lastMeasureTemp = 0, lastHotTime = 162, hot = 0,
     btnIsPressed = 0, fanOverride = 0, PORTB = p\<rparr>"
  by (simp add: init_state_def u8_cast_def FAN_COOL_TIME_def FAN_OVERRIDE_NONE_def)

lemma init_override [simp]: "fanOverride (init_state p) = FAN_OVERRIDE_NONE"
  by (simp add: init_state_def)

section \<open>The sampler\<close>

text \<open>
  C3. A sample with reading \<open>val\<close> sets \<open>hot\<close> to 0 when \<open>val > 27\<close>, to 1 when
  \<open>val < 23\<close>, and leaves it as it was for \<open>23 \<le> val \<le> 27\<close>. Afterwards
  \<open>lastHotTime\<close> is \<open>now\<close> when the resulting \<open>hot\<close> is non-zero and is unchanged
  otherwise. \<open>now\<close> itself is not changed by the sample.
\<close>

theorem sample_hysteresis:
  "hot (sample val s) =
     (if uint val > 27 then 0 else if uint val < 23 then 1 else hot s)
   \<and> lastHotTime (sample val s) =
     (if hot (sample val s) \<noteq> 0 then now s else lastHotTime s)
   \<and> now (sample val s) = now s
   \<and> COOL_VAL = 27 \<and> HOT_VAL = 23"
  by (simp add: sample_def Let_def COOL_VAL_def HOT_VAL_def)

lemma hot_kept_samples:
  "hot s \<noteq> 0 \<Longrightarrow> \<forall>v\<in>set vals. uint v \<le> 27 \<Longrightarrow> hot (fold sample vals s) \<noteq> 0"
  by (induction vals arbitrary: s) simp_all

lemma hot_dead_band_samples:
  "\<forall>v\<in>set vals. 23 \<le> uint v \<and> uint v \<le> 27 \<Longrightarrow> hot (fold sample vals s) = hot s"
  by (induction vals arbitrary: s) simp_all

lemma hot_kept_run:
  "hot s \<noteq> 0 \<Longrightarrow> \<forall>i\<in>set is. uint (in_ADCL i) \<le> 27 \<Longrightarrow> hot (run is s) \<noteq> 0"
  by (induction "is" arbitrary: s) (simp_all add: hot_loop_body)

lemma hot_dead_band_run:
  "\<forall>i\<in>set is. 23 \<le> uint (in_ADCL i) \<and> uint (in_ADCL i) \<le> 27 \<Longrightarrow> hot (run is s) = hot s"
  by (induction "is" arbitrary: s) (simp_all add: hot_loop_body)

text \<open>
  C8. Once \<open>hot\<close> is non-zero it stays non-zero over any sequence of samples, and
  over any sequence of loop iterations, whose readings are all at most
  \<open>COOL_VAL\<close>; a reading of at least \<open>COOL_VAL + 1\<close> clears it. Readings that all
  lie in the dead band from \<open>HOT_VAL\<close> to \<open>COOL_VAL\<close> leave \<open>hot\<close> exactly as it
  was, whichever value it had.
\<close>

theorem hot_hysteresis:
  "(hot s \<noteq> 0 \<and> (\<forall>v\<in>set vals. uint v \<le> COOL_VAL) \<longrightarrow> hot (fold sample vals s) \<noteq> 0)
   \<and> ((\<forall>v\<in>set vals. HOT_VAL \<le> uint v \<and> uint v \<le> COOL_VAL) \<longrightarrow>
        hot (fold sample vals s) = hot s)
   \<and> (hot s \<noteq> 0 \<and> (\<forall>i\<in>set is. uint (in_ADCL i) \<le> COOL_VAL) \<longrightarrow> hot (run is s) \<noteq> 0)
   \<and> ((\<forall>i\<in>set is. HOT_VAL \<le> uint (in_ADCL i) \<and> uint (in_ADCL i) \<le> COOL_VAL) \<longrightarrow>
        hot (run is s) = hot s)
   \<and> (COOL_VAL + 1 \<le> uint v \<longrightarrow> hot (sample v s) = 0)"
  using hot_kept_samples [of s vals] hot_dead_band_samples [of vals s]
    hot_kept_run [of s "is"] hot_dead_band_run [of "is" s]
  by (simp add: COOL_VAL_def HOT_VAL_def)

theorem hot_hysteresis_witness:
  "hot (run (replicate 32 tick_hot) (init_state 0)) \<noteq> 0
   \<and> hot (fold sample [25, 27, 23] (run (replicate 32 tick_hot) (init_state 0))) \<noteq> 0
   \<and> hot (run (replicate 40 tick_mild) (run (replicate 32 tick_hot) (init_state 0))) \<noteq> 0
   \<and> hot (run (replicate 40 tick_mild) (init_state 0)) = hot (init_state 0)
   \<and> hot (sample 28 (run (replicate 32 tick_hot) (init_state 0))) = 0"
proof -
  let ?s = "run (replicate 32 tick_hot) (init_state 0)"
  have h: "hot ?s \<noteq> 0"
    by code_simp
  have v1: "\<forall>v\<in>set [25, 27, 23 :: u8]. uint v \<le> COOL_VAL"
    by (simp add: COOL_VAL_def)
  have v2: "\<forall>i\<in>set (replicate 40 tick_mild). uint (in_ADCL i) \<le> COOL_VAL"
    by (simp add: COOL_VAL_def tick_mild_def)
  have v3: "\<forall>i\<in>set (replicate 40 tick_mild).
      HOT_VAL \<le> uint (in_ADCL i) \<and> uint (in_ADCL i) \<le> COOL_VAL"
    by (simp add: COOL_VAL_def HOT_VAL_def tick_mild_def)
  have v4: "COOL_VAL + 1 \<le> uint (28 :: u8)"
    by (simp add: COOL_VAL_def)
  show ?thesis
    using hot_hysteresis [of ?s "[25, 27, 23]" "replicate 40 tick_mild" 28]
      hot_hysteresis [of "init_state 0" "[]" "replicate 40 tick_mild" 28] h v1 v2 v3 v4
    by blast
qed

section \<open>The automatic decision\<close>

text \<open>
  C1. Take any iteration in which \<open>fanOverride\<close> is \<open>FAN_OVERRIDE_NONE\<close> after the
  sampling and input steps. If, in the state those steps leave, \<open>hot\<close> is non-zero
  or \<open>(now - lastHotTime) mod 256 < 125\<close>, the fan pin is on at the end of the
  iteration. Otherwise the fan pin is off, \<open>lastHotTime\<close> is
  \<open>(now - 125) mod 256\<close>, and the age then reads exactly 125.
\<close>

theorem fan_decision_automatic:
  assumes "fanOverride (before_decision i s) = FAN_OVERRIDE_NONE"
  shows "(hot (before_decision i s) \<noteq> 0
          \<or> (uint (now (before_decision i s)) - uint (lastHotTime (before_decision i s))) mod 256 < 125
          \<longrightarrow> fan_is_on (PORTB (loop_body i s)))
       \<and> (\<not> (hot (before_decision i s) \<noteq> 0
          \<or> (uint (now (before_decision i s)) - uint (lastHotTime (before_decision i s))) mod 256 < 125)
          \<longrightarrow> \<not> fan_is_on (PORTB (loop_body i s))
            \<and> uint (lastHotTime (loop_body i s)) = (uint (now (before_decision i s)) - 125) mod 256
            \<and> uint (age (now (loop_body i s)) (lastHotTime (loop_body i s))) = 125)
       \<and> FAN_COOL_TIME = 125"
proof -
  let ?b = "before_decision i s"
  let ?on = "hot ?b \<noteq> 0 \<or> (uint (now ?b) - uint (lastHotTime ?b)) mod 256 < 125"
  have cond: "(hot ?b \<noteq> 0 \<or> uint (age (now ?b) (lastHotTime ?b)) < FAN_COOL_TIME) = ?on"
    by (simp add: uint_age FAN_COOL_TIME_def)
  have on: "loop_body i s = ?b\<lparr>PORTB := FAN_ON (PORTB ?b)\<rparr>" if ?on
    using assms that cond by (simp add: loop_body_def fan_decide_def)
  have off: "loop_body i s = ?b\<lparr>PORTB := FAN_OFF (PORTB ?b),
      lastHotTime := rewound (now ?b)\<rparr>" if "\<not> ?on"
    using assms that cond by (simp add: loop_body_def fan_decide_def)
  have "fan_is_on (PORTB (loop_body i s))" if ?on
    using on [OF that] by simp
  moreover have "\<not> fan_is_on (PORTB (loop_body i s))
      \<and> uint (lastHotTime (loop_body i s)) = (uint (now ?b) - 125) mod 256
      \<and> uint (age (now (loop_body i s)) (lastHotTime (loop_body i s))) = 125" if "\<not> ?on"
    using off [OF that] by (simp add: age_after_rewind uint_rewound)
  moreover have "FAN_COOL_TIME = 125"
    by (simp add: FAN_COOL_TIME_def)
  ultimately show ?thesis by blast
qed

theorem fan_decision_automatic_witness:
  "fanOverride (before_decision tick_cold (init_state 0)) = FAN_OVERRIDE_NONE
   \<and> fan_is_on (PORTB (loop_body tick_cold (init_state 0)))
   \<and> fanOverride (before_decision tick_cold (run (replicate 30 tick_cold) (init_state 0)))
       = FAN_OVERRIDE_NONE
   \<and> \<not> fan_is_on (PORTB (loop_body tick_cold (run (replicate 30 tick_cold) (init_state 0))))
   \<and> uint (age (now (loop_body tick_cold (run (replicate 30 tick_cold) (init_state 0))))
        (lastHotTime (loop_body tick_cold (run (replicate 30 tick_cold) (init_state 0))))) = 125"
proof -
  let ?s = "init_state 0"
  let ?r = "run (replicate 30 tick_cold) (init_state 0)"
  have h1: "fanOverride (before_decision tick_cold ?s) = FAN_OVERRIDE_NONE"
    by code_simp
  have c1: "hot (before_decision tick_cold ?s) \<noteq> 0
     \<or> (uint (now (before_decision tick_cold ?s))
         - uint (lastHotTime (before_decision tick_cold ?s))) mod 256 < 125"
    by code_simp
  have h2: "fanOverride (before_decision tick_cold ?r) = FAN_OVERRIDE_NONE"
    by code_simp
  have c2: "\<not> (hot (before_decision tick_cold ?r) \<noteq> 0
     \<or> (uint (now (before_decision tick_cold ?r))
         - uint (lastHotTime (before_decision tick_cold ?r))) mod 256 < 125)"
    by code_simp
  show ?thesis
    using fan_decision_automatic [OF h1] fan_decision_automatic [OF h2] c1 c2 h1 h2
    by blast
qed

section \<open>The button and the override\<close>

lemma held_down:
  "btnIsPressed s \<noteq> 0 \<Longrightarrow>
   \<forall>i\<in>set is. BTN_ISPRESSED (in_PINB_155 i) \<and> BTN_ISPRESSED (in_PINB_176 i) \<Longrightarrow>
   fanOverride (run is s) = fanOverride s \<and> btnIsPressed (run is s) \<noteq> 0"
proof (induction "is" arbitrary: s)
  case Nil
  then show ?case by simp
next
  case (Cons i "is")
  have "\<not> press_edge i s" "\<not> release_edge i s"
    using Cons.prems by (simp_all add: press_edge_def release_edge_def)
  then have "fanOverride (loop_body i s) = fanOverride s" "btnIsPressed (loop_body i s) \<noteq> 0"
    using Cons.prems(1) by (simp_all add: loop_body_override loop_body_btn)
  then show ?case
    using Cons.IH [of "loop_body i s"] Cons.prems(2) by simp
qed

text \<open>
  C10. When the release branch runs (the first test of line 155 fails, the button
  reads up at line 176 and \<open>btnIsPressed\<close> is set), the input step changes
  \<open>btnIsPressed\<close> to 0 and nothing else. And if the button is up in the variables
  and then reads down in every one of one or more iterations, \<open>fanOverride\<close> has
  advanced exactly one step of \<open>NONE, ON, OFF, NONE\<close> at the end of them, however
  many they are; an iteration that then reads the button up clears \<open>btnIsPressed\<close>
  and leaves \<open>fanOverride\<close> where it is.
\<close>

theorem release_changes_only_btnIsPressed:
  "(release_edge i s \<longrightarrow> input_step i s = s\<lparr>btnIsPressed := 0\<rparr>)
   \<and> (btnIsPressed s = 0 \<and> is \<noteq> []
       \<and> (\<forall>j\<in>set is. BTN_ISPRESSED (in_PINB_155 j) \<and> BTN_ISPRESSED (in_PINB_176 j)) \<longrightarrow>
        btnIsPressed (run is s) \<noteq> 0
        \<and> (fanOverride s = FAN_OVERRIDE_NONE \<longrightarrow> fanOverride (run is s) = FAN_OVERRIDE_ON)
        \<and> (fanOverride s = FAN_OVERRIDE_ON \<longrightarrow> fanOverride (run is s) = FAN_OVERRIDE_OFF)
        \<and> (fanOverride s = FAN_OVERRIDE_OFF \<longrightarrow> fanOverride (run is s) = FAN_OVERRIDE_NONE)
        \<and> (\<not> BTN_ISPRESSED (in_PINB_155 r) \<and> \<not> BTN_ISPRESSED (in_PINB_176 r) \<longrightarrow>
             btnIsPressed (run (is @ [r]) s) = 0
             \<and> fanOverride (run (is @ [r]) s) = fanOverride (run is s)))"
proof -
  have rel: "input_step i s = s\<lparr>btnIsPressed := 0\<rparr>" if "release_edge i s"
    using that by (simp add: input_step_cases release_edge_def release_branch_def)
  have hold: "btnIsPressed (run is s) \<noteq> 0
        \<and> fanOverride (run is s) =
            (if fanOverride s = FAN_OVERRIDE_NONE then FAN_OVERRIDE_ON
             else if fanOverride s = FAN_OVERRIDE_ON then FAN_OVERRIDE_OFF
             else FAN_OVERRIDE_NONE)"
    if up: "btnIsPressed s = 0" and ne: "is \<noteq> []"
      and down: "\<forall>j\<in>set is. BTN_ISPRESSED (in_PINB_155 j) \<and> BTN_ISPRESSED (in_PINB_176 j)"
  proof -
    obtain j js where js: "is = j # js"
      using ne by (cases "is") auto
    have edge: "press_edge j s"
      using up down js by (simp add: press_edge_def)
    have first: "btnIsPressed (loop_body j s) \<noteq> 0"
      using edge by (simp add: loop_body_btn)
    have rest: "\<forall>k\<in>set js. BTN_ISPRESSED (in_PINB_155 k) \<and> BTN_ISPRESSED (in_PINB_176 k)"
      using down js by simp
    show ?thesis
      using held_down [OF first rest] edge by (simp add: js loop_body_override)
  qed
  have after: "btnIsPressed (run (is @ [r]) s) = 0
        \<and> fanOverride (run (is @ [r]) s) = fanOverride (run is s)"
    if "btnIsPressed (run is s) \<noteq> 0"
      and "\<not> BTN_ISPRESSED (in_PINB_155 r)" "\<not> BTN_ISPRESSED (in_PINB_176 r)"
    using that
    by (simp add: run_append loop_body_btn loop_body_override press_edge_def release_edge_def)
  show ?thesis
    using rel hold after by (simp add: override_defs)
qed

theorem release_changes_only_btnIsPressed_witness:
  "release_edge tick_cold (run [tick_press] (init_state 0))
   \<and> input_step tick_cold (run [tick_press] (init_state 0))
       = (run [tick_press] (init_state 0))\<lparr>btnIsPressed := 0\<rparr>
   \<and> btnIsPressed (init_state 0) = 0
   \<and> fanOverride (init_state 0) = FAN_OVERRIDE_NONE
   \<and> fanOverride (run [tick_press, tick_press, tick_press] (init_state 0)) = FAN_OVERRIDE_ON
   \<and> btnIsPressed (run [tick_press, tick_press, tick_press] (init_state 0)) \<noteq> 0
   \<and> fanOverride (run ([tick_press, tick_press, tick_press] @ [tick_cold]) (init_state 0))
       = FAN_OVERRIDE_ON
   \<and> btnIsPressed (run ([tick_press, tick_press, tick_press] @ [tick_cold]) (init_state 0)) = 0"
proof -
  let ?held = "[tick_press, tick_press, tick_press]"
  have h1: "release_edge tick_cold (run [tick_press] (init_state 0))"
    by code_simp
  have h2: "btnIsPressed (init_state 0) = 0"
    by code_simp
  have h3: "?held \<noteq> []"
    by simp
  have h4: "\<forall>j\<in>set ?held. BTN_ISPRESSED (in_PINB_155 j) \<and> BTN_ISPRESSED (in_PINB_176 j)"
    by (simp add: tick_press_def BTN_ISPRESSED_def)
  have h5: "fanOverride (init_state 0) = FAN_OVERRIDE_NONE"
    by simp
  have h6: "\<not> BTN_ISPRESSED (in_PINB_155 tick_cold) \<and> \<not> BTN_ISPRESSED (in_PINB_176 tick_cold)"
    by code_simp
  have a: "input_step tick_cold (run [tick_press] (init_state 0))
       = (run [tick_press] (init_state 0))\<lparr>btnIsPressed := 0\<rparr>"
    using release_changes_only_btnIsPressed
      [of tick_cold "run [tick_press] (init_state 0)"] h1
    by blast
  have b: "btnIsPressed (run ?held (init_state 0)) \<noteq> 0
     \<and> fanOverride (run ?held (init_state 0)) = FAN_OVERRIDE_ON
     \<and> btnIsPressed (run (?held @ [tick_cold]) (init_state 0)) = 0
     \<and> fanOverride (run (?held @ [tick_cold]) (init_state 0))
         = fanOverride (run ?held (init_state 0))"
    using release_changes_only_btnIsPressed
      [of _ "init_state 0" ?held tick_cold] h2 h3 h4 h5 h6
    by blast
  show ?thesis
    using a b h1 h2 h5 by simp
qed

lemma forced_ok_step: "forced_ok s \<Longrightarrow> forced_ok (loop_body i s)"
proof -
  assume inv: "forced_ok s"
  show ?thesis
  proof (cases "fanOverride (loop_body i s) = FAN_OVERRIDE_NONE")
    case True
    then show ?thesis by (simp add: forced_ok_def override_defs)
  next
    case False
    then show ?thesis
      using inv PORTB_loop_body_forced [OF False]
      by (auto simp: forced_ok_def loop_body_override PORTB_before_decision
          PORTB_press_branch override_defs split: if_splits)
  qed
qed

lemma forced_ok_run: "forced_ok s \<Longrightarrow> forced_ok (run is s)"
  by (induction "is" arbitrary: s) (simp_all add: forced_ok_step)

lemma forced_ok_init: "forced_ok (init_state p)"
  by (simp add: forced_ok_def override_defs)

text \<open>
  C4. In every state \<open>s\<close> the control loop reaches from power-on, \<open>fanOverride\<close> is
  one of the three distinct values \<open>NONE\<close>, \<open>ON\<close>, \<open>OFF\<close>. An iteration from \<open>s\<close>
  that detects a press edge moves it one step along \<open>NONE, ON, OFF, NONE\<close>; an
  iteration that detects none leaves it. And whenever \<open>fanOverride\<close> is \<open>ON\<close> the
  fan pin is on, whenever it is \<open>OFF\<close> the fan pin is off, whatever \<open>hot\<close>, \<open>now\<close>
  and \<open>lastHotTime\<close> are.
\<close>

theorem override_three_valued_cycle:
  assumes "s = run is (init_state p)"
  shows "fanOverride s \<in> {FAN_OVERRIDE_NONE, FAN_OVERRIDE_ON, FAN_OVERRIDE_OFF}
       \<and> distinct [FAN_OVERRIDE_NONE, FAN_OVERRIDE_ON, FAN_OVERRIDE_OFF]
       \<and> (press_edge i (before_input i s) \<longrightarrow>
            (fanOverride s = FAN_OVERRIDE_NONE \<longrightarrow> fanOverride (loop_body i s) = FAN_OVERRIDE_ON)
          \<and> (fanOverride s = FAN_OVERRIDE_ON \<longrightarrow> fanOverride (loop_body i s) = FAN_OVERRIDE_OFF)
          \<and> (fanOverride s = FAN_OVERRIDE_OFF \<longrightarrow> fanOverride (loop_body i s) = FAN_OVERRIDE_NONE))
       \<and> (\<not> press_edge i (before_input i s) \<longrightarrow> fanOverride (loop_body i s) = fanOverride s)
       \<and> (fanOverride s = FAN_OVERRIDE_ON \<longrightarrow> fan_is_on (PORTB s))
       \<and> (fanOverride s = FAN_OVERRIDE_OFF \<longrightarrow> \<not> fan_is_on (PORTB s))"
proof -
  have "forced_ok s"
    unfolding assms by (rule forced_ok_run [OF forced_ok_init])
  then have "fanOverride s \<in> {FAN_OVERRIDE_NONE, FAN_OVERRIDE_ON, FAN_OVERRIDE_OFF}"
    and "fanOverride s = FAN_OVERRIDE_ON \<longrightarrow> fan_is_on (PORTB s)"
    and "fanOverride s = FAN_OVERRIDE_OFF \<longrightarrow> \<not> fan_is_on (PORTB s)"
    by (auto simp: forced_ok_def override_defs split: if_splits)
  moreover have "distinct [FAN_OVERRIDE_NONE, FAN_OVERRIDE_ON, FAN_OVERRIDE_OFF]"
    by (simp add: override_defs)
  ultimately show ?thesis
    by (simp add: loop_body_override override_defs)
qed

theorem override_three_valued_cycle_witness:
  "fanOverride (run [tick_press, tick_cold] (init_state 0)) = FAN_OVERRIDE_ON
   \<and> fan_is_on (PORTB (run [tick_press, tick_cold] (init_state 0)))
   \<and> press_edge tick_press (before_input tick_press (run [tick_press, tick_cold] (init_state 0)))
   \<and> fanOverride (loop_body tick_press (run [tick_press, tick_cold] (init_state 0)))
       = FAN_OVERRIDE_OFF
   \<and> fanOverride (loop_body tick_cold (run [tick_press, tick_cold] (init_state 0)))
       = FAN_OVERRIDE_ON"
proof -
  let ?s = "run [tick_press, tick_cold] (init_state 0)"
  have h1: "fanOverride ?s = FAN_OVERRIDE_ON"
    by code_simp
  have h2: "press_edge tick_press (before_input tick_press ?s)"
    by code_simp
  have h3: "\<not> press_edge tick_cold (before_input tick_cold ?s)"
    by code_simp
  show ?thesis
    using override_three_valued_cycle [of ?s "[tick_press, tick_cold]" 0 tick_press, OF refl]
      override_three_valued_cycle [of ?s "[tick_press, tick_cold]" 0 tick_cold, OF refl]
      h1 h2 h3
    by metis
qed

text \<open>
  C7. When an iteration detects a press edge while \<open>fanOverride\<close> is \<open>OFF\<close> and
  \<open>hot\<close> is 0 (both read after the sampling step of that iteration), the input
  step sets \<open>fanOverride\<close> to \<open>NONE\<close> and \<open>lastHotTime\<close> to \<open>(now - 125) mod 256\<close>,
  so the age reads 125, and the decision of the same iteration leaves the fan
  pin off.
\<close>

theorem override_exit_rewinds:
  assumes "press_edge i (before_input i s)"
      and "fanOverride (before_input i s) = FAN_OVERRIDE_OFF"
      and "hot (before_input i s) = 0"
  shows "fanOverride (before_decision i s) = FAN_OVERRIDE_NONE
       \<and> uint (lastHotTime (before_decision i s)) = (uint (now (before_input i s)) - 125) mod 256
       \<and> now (before_decision i s) = now (before_input i s)
       \<and> uint (age (now (before_decision i s)) (lastHotTime (before_decision i s))) = 125
       \<and> \<not> fan_is_on (PORTB (loop_body i s))
       \<and> FAN_COOL_TIME = 125"
proof -
  let ?b = "before_input i s"
  have b: "before_decision i s =
      ?b\<lparr>btnIsPressed := 1, fanOverride := FAN_OVERRIDE_NONE,
          lastHotTime := rewound (now ?b)\<rparr>"
    using assms
    by (simp add: before_decision_def input_step_def press_edge_def press_branch_def
        Let_def FAN_OVERRIDE_OFF_def FAN_OVERRIDE_NONE_def FAN_OVERRIDE_ON_def)
  show ?thesis
    using assms(3)
    by (simp add: b loop_body_def fan_decide_def age_after_rewind uint_rewound
        FAN_COOL_TIME_def)
qed

theorem override_exit_rewinds_witness:
  "press_edge tick_press
     (before_input tick_press
        (run [tick_press, tick_cold, tick_press, tick_cold] (init_state 0)))
   \<and> fanOverride (before_input tick_press
        (run [tick_press, tick_cold, tick_press, tick_cold] (init_state 0))) = FAN_OVERRIDE_OFF
   \<and> hot (before_input tick_press
        (run [tick_press, tick_cold, tick_press, tick_cold] (init_state 0))) = 0
   \<and> fanOverride (before_decision tick_press
        (run [tick_press, tick_cold, tick_press, tick_cold] (init_state 0))) = FAN_OVERRIDE_NONE
   \<and> \<not> fan_is_on (PORTB (loop_body tick_press
        (run [tick_press, tick_cold, tick_press, tick_cold] (init_state 0))))"
proof -
  let ?s = "run [tick_press, tick_cold, tick_press, tick_cold] (init_state 0)"
  have h1: "press_edge tick_press (before_input tick_press ?s)"
    by code_simp
  have h2: "fanOverride (before_input tick_press ?s) = FAN_OVERRIDE_OFF"
    by code_simp
  have h3: "hot (before_input tick_press ?s) = 0"
    by code_simp
  show ?thesis
    using override_exit_rewinds [OF h1 h2 h3] h1 h2 h3 by blast
qed

section \<open>Power-on\<close>

lemma boot_window_init: "boot_window 0 (init_state p)"
  by (simp add: boot_window_def init_state_fields FAN_OVERRIDE_NONE_def)

lemma sub162: "uint (a - 162 :: u8) = (uint a - 162) mod 256"
  by (simp add: uint_sub_u8)

lemma boot_age: "uint (a :: u8) \<le> 31 \<Longrightarrow> uint (a - 162) = uint a + 94"
  using mod256_neg [of "uint a - 162"] by (simp add: sub162)

lemma boot_window_step:
  assumes w: "boot_window t s" and up: "\<not> BTN_ISPRESSED (in_PINB_155 i)"
    and t: "t + tick_of i \<le> 31"
  shows "boot_window (t + tick_of i) (loop_body i s)
       \<and> (fan_is_on (PORTB (loop_body i s)) \<longleftrightarrow> t + tick_of i \<le> 30)"
proof -
  let ?t = "t + tick_of i"
  let ?a = "tick_step i s"
  have w': "uint (now s) = int t" "lastMeasureTemp s = 0" "lastHotTime s = 162" "hot s = 0"
    "btnIsPressed s = 0" "fanOverride s = FAN_OVERRIDE_NONE"
    using w by (simp_all add: boot_window_def)
  have "now ?a = now s + of_nat (tick_of i)"
    by (simp add: tick_of_def)
  then have n: "uint (now ?a) = int ?t"
    using uint_tick_u8 [of "now s" i] w'(1) t by simp
  have rest: "lastMeasureTemp ?a = 0" "lastHotTime ?a = 162" "hot ?a = 0"
    "btnIsPressed ?a = 0" "fanOverride ?a = FAN_OVERRIDE_NONE"
    using w' by simp_all
  have "\<not> sample_due ?a"
    using t n by (simp add: sample_due_iff rest del: tick_step_fields)
  then have b: "before_input i s = ?a"
    by (simp add: before_input_def sample_step_def)
  have "\<not> press_edge i ?a" "\<not> release_edge i ?a"
    using up rest by (simp_all add: press_edge_def release_edge_def del: tick_step_fields)
  then have c: "before_decision i s = ?a"
    by (simp add: before_decision_def b input_step_cases)
  have e: "uint (age (now ?a) (lastHotTime ?a)) = int ?t + 94"
    using t n boot_age [of "now ?a"] by (simp add: age_eq rest del: tick_step_fields)
  show ?thesis
  proof (cases "?t \<le> 30")
    case True
    then have "loop_body i s = ?a\<lparr>PORTB := FAN_ON (PORTB ?a)\<rparr>"
      using e by (simp add: loop_body_def c fan_decide_def rest FAN_COOL_TIME_def
          del: tick_step_fields)
    then show ?thesis
      using True n rest by (simp add: boot_window_def del: tick_step_fields)
  next
    case False
    then have t31: "?t = 31" using t by simp
    have r: "rewound (now ?a) = 162"
    proof -
      have "uint (rewound (now ?a)) = uint (162 :: u8)"
        using n t31 by (simp add: uint_rewound del: tick_step_fields)
      then show ?thesis by (rule word_uint_eqI)
    qed
    have "loop_body i s = ?a\<lparr>PORTB := FAN_OFF (PORTB ?a), lastHotTime := rewound (now ?a)\<rparr>"
      using e False by (simp add: loop_body_def c fan_decide_def rest FAN_COOL_TIME_def
          del: tick_step_fields)
    then show ?thesis
      using False n rest r by (simp add: boot_window_def del: tick_step_fields)
  qed
qed

lemma boot_window_run:
  "boot_window t s \<Longrightarrow> \<forall>i\<in>set is. \<not> BTN_ISPRESSED (in_PINB_155 i) \<Longrightarrow>
   t + ticks is \<le> 31 \<Longrightarrow> is \<noteq> [] \<Longrightarrow>
   boot_window (t + ticks is) (run is s)
   \<and> (fan_is_on (PORTB (run is s)) \<longleftrightarrow> t + ticks is \<le> 30)"
proof (induction "is" arbitrary: t s)
  case Nil
  then show ?case by simp
next
  case (Cons i "is")
  have t1: "t + tick_of i \<le> 31"
    using Cons.prems(3) by simp
  have up: "\<not> BTN_ISPRESSED (in_PINB_155 i)"
    using Cons.prems(2) by simp
  have st: "boot_window (t + tick_of i) (loop_body i s)
       \<and> (fan_is_on (PORTB (loop_body i s)) \<longleftrightarrow> t + tick_of i \<le> 30)"
    by (rule boot_window_step [OF Cons.prems(1) up t1])
  show ?case
  proof (cases "is = []")
    case True
    then show ?thesis using st by simp
  next
    case False
    have le: "t + tick_of i + ticks is \<le> 31"
      using Cons.prems(3) by (simp add: add.assoc)
    have rest: "\<forall>i\<in>set is. \<not> BTN_ISPRESSED (in_PINB_155 i)"
      using Cons.prems(2) by simp
    have "boot_window (t + tick_of i + ticks is) (run is (loop_body i s))
       \<and> (fan_is_on (PORTB (run is (loop_body i s))) \<longleftrightarrow> t + tick_of i + ticks is \<le> 30)"
      using st by (intro Cons.IH [OF _ rest le False]) simp
    then show ?thesis
      by (simp add: add.assoc)
  qed
qed

text \<open>
  C6. \<open>main\<close> starts with \<open>now = 0\<close>, \<open>lastMeasureTemp = 0\<close>, \<open>lastHotTime = 162\<close>
  (which is \<open>(0 - 125) + 31\<close> modulo 256), \<open>hot = 0\<close> and no override. Run any
  one or more iterations from there in which the button reads up. While at most 30
  ticks have been consumed the fan pin is on at the end of the iteration; when
  exactly 31 have been consumed it is off. No sample is taken before tick 32, so
  no reading of the sensor can change this.
\<close>

theorem power_on_fan_pulse:
  assumes "is \<noteq> []" and "\<forall>i\<in>set is. \<not> BTN_ISPRESSED (in_PINB_155 i)"
  shows "now (init_state p) = 0 \<and> lastMeasureTemp (init_state p) = 0
       \<and> lastHotTime (init_state p) = 162 \<and> hot (init_state p) = 0
       \<and> fanOverride (init_state p) = FAN_OVERRIDE_NONE
       \<and> now (run is (init_state p)) = of_nat (ticks is)
       \<and> (ticks is \<le> 30 \<longrightarrow> fan_is_on (PORTB (run is (init_state p))))
       \<and> (ticks is = 31 \<longrightarrow> \<not> fan_is_on (PORTB (run is (init_state p))))"
proof -
  have n: "now (run is (init_state p)) = of_nat (ticks is)"
    by (simp add: run_now init_state_fields)
  have w: "fan_is_on (PORTB (run is (init_state p))) \<longleftrightarrow> ticks is \<le> 30"
    if "ticks is \<le> 31"
    using boot_window_run [OF boot_window_init assms(2) _ assms(1), of p] that by simp
  have on: "ticks is \<le> 30 \<longrightarrow> fan_is_on (PORTB (run is (init_state p)))"
    using w by simp
  have off: "ticks is = 31 \<longrightarrow> \<not> fan_is_on (PORTB (run is (init_state p)))"
    using w by simp
  show ?thesis
    using n on off by (simp add: init_state_fields FAN_OVERRIDE_NONE_def)
qed

theorem power_on_fan_pulse_witness:
  "ticks (replicate 30 tick_cold) = 30
   \<and> fan_is_on (PORTB (run (replicate 30 tick_cold) (init_state 0)))
   \<and> ticks (replicate 31 tick_hot) = 31
   \<and> \<not> fan_is_on (PORTB (run (replicate 31 tick_hot) (init_state 0)))"
proof -
  have c1: "replicate 30 tick_cold \<noteq> []" and h1: "replicate 31 tick_hot \<noteq> []"
    by simp_all
  have c2: "\<forall>i\<in>set (replicate 30 tick_cold). \<not> BTN_ISPRESSED (in_PINB_155 i)"
    by (simp add: tick_cold_def BTN_ISPRESSED_def BV_def PINB1_def)
  have h2: "\<forall>i\<in>set (replicate 31 tick_hot). \<not> BTN_ISPRESSED (in_PINB_155 i)"
    by (simp add: tick_hot_def BTN_ISPRESSED_def BV_def PINB1_def)
  have c3: "ticks (replicate 30 tick_cold) = 30" and h3: "ticks (replicate 31 tick_hot) = 31"
    by code_simp+
  show ?thesis
    using power_on_fan_pulse [OF c1 c2, of 0] power_on_fan_pulse [OF h1 h2, of 0] c3 h3
    by simp
qed

section \<open>The cool-down\<close>

lemma lastHotTime_input_step_hot:
  "hot s \<noteq> 0 \<Longrightarrow> lastHotTime (input_step i s) = lastHotTime s"
  by (simp add: input_step_cases press_branch_def release_branch_def Let_def)

lemma lastHotTime_fan_decide_hot:
  "hot s \<noteq> 0 \<Longrightarrow> lastHotTime (fan_decide s) = lastHotTime s"
  by (simp add: fan_decide_def)

lemma loop_body_lastMeasureTemp:
  "lastMeasureTemp (loop_body i s) = lastMeasureTemp (before_input i s)"
  by (simp add: loop_body_def before_decision_def)

lemma loop_body_hot: "hot (loop_body i s) = hot (before_input i s)"
  by (simp add: loop_body_def before_decision_def)

lemma loop_body_now_bi: "now (loop_body i s) = now (before_input i s)"
  by (simp add: loop_body_def before_decision_def del: before_input_fields)

lemma loop_body_lastHotTime_hot:
  "hot (before_input i s) \<noteq> 0 \<Longrightarrow>
   lastHotTime (loop_body i s) = lastHotTime (before_input i s)"
  by (simp add: loop_body_def before_decision_def lastHotTime_input_step_hot
      lastHotTime_fan_decide_hot)

lemma tick_age:
  assumes "uint (a - b :: u8) < 255"
  shows "uint ((a + of_nat (tick_of i)) - b) = uint (a - b) + int (tick_of i)"
proof -
  have "(a + of_nat (tick_of i)) - b = (a - b) + of_nat (tick_of i)"
    by simp
  then have "uint ((a + of_nat (tick_of i)) - b) = uint ((a - b) + of_nat (tick_of i))"
    by (rule arg_cong)
  also have "\<dots> = uint (a - b) + int (tick_of i)"
    by (rule uint_tick_u8 [OF assms])
  finally show ?thesis .
qed

lemma tick_step_now: "now (tick_step i s) = now s + of_nat (tick_of i)"
  by (simp add: tick_of_def)

lemma sampled_recently_init: "sampled_recently (init_state p)"
  by (simp add: sampled_recently_def init_state_fields)

lemma sampled_recently_before_input:
  assumes "sampled_recently s"
  shows "sampled_recently (before_input i s)"
proof -
  let ?a = "tick_step i s"
  have u: "uint (now s - lastMeasureTemp s) < 32"
    and h: "hot s \<noteq> 0 \<Longrightarrow> lastHotTime s = lastMeasureTemp s"
    using assms by (simp_all add: sampled_recently_def)
  have d: "uint (now ?a - lastMeasureTemp ?a) = uint (now s - lastMeasureTemp s) + int (tick_of i)"
    using u tick_age [of "now s" "lastMeasureTemp s" i]
    by (simp add: tick_step_now del: tick_step_fields(1))
  show ?thesis
  proof (cases "sample_due ?a")
    case True
    then have "before_input i s = sample (in_ADCL i) ?a"
      by (simp add: before_input_def sample_step_def)
    then show ?thesis
      by (simp add: sampled_recently_def del: tick_step_fields(1))
  next
    case False
    then have b: "before_input i s = ?a"
      by (simp add: before_input_def sample_step_def)
    have "uint (now ?a - lastMeasureTemp ?a) < 32"
      using False by (simp add: sample_due_iff del: tick_step_fields(1))
    then show ?thesis
      using h by (simp add: b sampled_recently_def del: tick_step_fields(1))
  qed
qed

lemma sampled_recently_step:
  assumes "sampled_recently s"
  shows "sampled_recently (loop_body i s)"
proof -
  let ?b = "before_input i s"
  have b: "uint (now ?b - lastMeasureTemp ?b) < 32"
    and h: "hot ?b \<noteq> 0 \<Longrightarrow> lastHotTime ?b = lastMeasureTemp ?b"
    using sampled_recently_before_input [OF assms, of i]
    by (simp_all add: sampled_recently_def del: before_input_fields)
  show ?thesis
    using b h
    by (simp add: sampled_recently_def loop_body_lastMeasureTemp loop_body_hot
        loop_body_now_bi loop_body_lastHotTime_hot del: before_input_fields)
qed

lemma sampled_recently_run: "sampled_recently s \<Longrightarrow> sampled_recently (run is s)"
  by (induction "is" arbitrary: s) (simp_all add: sampled_recently_step)

lemma no_edge_when_none_kept:
  assumes "fanOverride s = FAN_OVERRIDE_NONE" and "fanOverride (loop_body i s) = FAN_OVERRIDE_NONE"
  shows "\<not> press_edge i s"
  using assms by (auto simp: loop_body_override override_defs)

lemma before_decision_no_edge:
  assumes "\<not> press_edge i s"
  shows "now (before_decision i s) = now (before_input i s)"
    and "lastHotTime (before_decision i s) = lastHotTime (before_input i s)"
    and "hot (before_decision i s) = hot (before_input i s)"
    and "fanOverride (before_decision i s) = fanOverride s"
    and "PORTB (before_decision i s) = PORTB s"
  using assms
  by (simp_all add: before_decision_def input_step_cases release_branch_def
      del: before_input_fields(4))

lemma lastHotTime_before_input_cool:
  assumes "hot (before_input i s) = 0"
  shows "lastHotTime (before_input i s) = lastHotTime s"
proof (cases "sample_due (tick_step i s)")
  case True
  then have b: "before_input i s = sample (in_ADCL i) (tick_step i s)"
    by (simp add: before_input_def sample_step_def)
  have "hot (sample (in_ADCL i) (tick_step i s)) = 0"
    using assms b by simp
  then show ?thesis
    unfolding b sample_fields(4) by simp
next
  case False
  then show ?thesis
    by (simp add: before_input_def sample_step_def)
qed

lemma fan_decide_cool:
  assumes "fanOverride d = FAN_OVERRIDE_NONE" and "hot d = 0"
  shows "fan_decide d =
     (if uint (now d - lastHotTime d) < 125 then d\<lparr>PORTB := FAN_ON (PORTB d)\<rparr>
      else d\<lparr>PORTB := FAN_OFF (PORTB d), lastHotTime := rewound (now d)\<rparr>)"
  using assms by (simp add: fan_decide_def age_eq FAN_COOL_TIME_def)

lemma age_rewound: "uint (a - rewound a) = 125"
  using age_after_rewind [of a] by (simp add: age_eq)

lemma cooling_step:
  assumes k: "cooling a s"
    and h: "hot (loop_body i s) = 0"
    and f: "fanOverride (loop_body i s) = FAN_OVERRIDE_NONE"
  shows "cooling (a + tick_of i) (loop_body i s)"
proof -
  let ?d = "before_decision i s"
  have k': "hot s = 0" "fanOverride s = FAN_OVERRIDE_NONE"
    using k by (simp_all add: cooling_def)
  have ne: "\<not> press_edge i s"
    by (rule no_edge_when_none_kept [OF k'(2) f])
  have hb: "hot (before_input i s) = 0"
    using h by (simp add: loop_body_hot)
  have d: "now ?d = now s + of_nat (tick_of i)" "lastHotTime ?d = lastHotTime s"
    "hot ?d = 0" "fanOverride ?d = FAN_OVERRIDE_NONE"
    using before_decision_no_edge [OF ne] hb k'(2) lastHotTime_before_input_cool [OF hb]
    by (simp_all add: tick_of_def)
  have lb: "loop_body i s =
     (if uint (now ?d - lastHotTime ?d) < 125 then ?d\<lparr>PORTB := FAN_ON (PORTB ?d)\<rparr>
      else ?d\<lparr>PORTB := FAN_OFF (PORTB ?d), lastHotTime := rewound (now ?d)\<rparr>)"
    unfolding loop_body_def by (rule fan_decide_cool [OF d(4) d(3)])
  have small: "uint (now s - lastHotTime s) < 255"
    using k by (simp add: cooling_def split: if_splits)
  have ag: "uint (now ?d - lastHotTime ?d) = uint (now s - lastHotTime s) + int (tick_of i)"
    unfolding d by (rule tick_age [OF small])
  show ?thesis
  proof (cases "a < 125")
    case True
    then have u: "uint (now s - lastHotTime s) = int a"
      using k by (simp add: cooling_def)
    show ?thesis
    proof (cases "a + tick_of i < 125")
      case True
      then show ?thesis
        using lb ag u d(3) d(4) by (simp add: cooling_def)
    next
      case False
      then show ?thesis
        using lb ag u d(3) d(4) by (simp add: cooling_def age_rewound)
    qed
  next
    case False
    then have u: "uint (now s - lastHotTime s) = 125"
      using k by (simp add: cooling_def)
    show ?thesis
      using False lb ag u d(3) d(4) by (simp add: cooling_def age_rewound)
  qed
qed

lemma cooling_run:
  "cooling a s \<Longrightarrow> stays_cool is s \<Longrightarrow> cooling (a + ticks is) (run is s)"
proof (induction "is" arbitrary: a s)
  case Nil
  then show ?case by simp
next
  case (Cons i "is")
  have "cooling (a + tick_of i) (loop_body i s)"
    using Cons.prems by (intro cooling_step) simp_all
  then have "cooling (a + tick_of i + ticks is) (run is (loop_body i s))"
    using Cons.prems(2) by (intro Cons.IH) simp_all
  then show ?case
    by (simp add: add.assoc)
qed

lemma cooling_starts:
  assumes r: "sampled_recently s" and h0: "hot s \<noteq> 0"
    and f0: "fanOverride s = FAN_OVERRIDE_NONE"
    and h1: "hot (loop_body i s) = 0"
    and f1: "fanOverride (loop_body i s) = FAN_OVERRIDE_NONE"
  shows "cooling 32 (loop_body i s) \<and> lastHotTime (loop_body i s) = lastMeasureTemp s"
proof -
  let ?a = "tick_step i s"
  let ?d = "before_decision i s"
  have u: "uint (now s - lastMeasureTemp s) < 32"
    and l: "lastHotTime s = lastMeasureTemp s"
    using r h0 by (simp_all add: sampled_recently_def)
  have hb: "hot (before_input i s) = 0"
    using h1 by (simp add: loop_body_hot)
  have due: "sample_due ?a"
  proof (rule ccontr)
    assume "\<not> sample_due ?a"
    then have "before_input i s = ?a"
      by (simp add: before_input_def sample_step_def)
    then show False using hb h0 by simp
  qed
  have "uint (now ?a - lastMeasureTemp s) = uint (now s - lastMeasureTemp s) + int (tick_of i)"
    using u tick_age [of "now s" "lastMeasureTemp s" i]
    by (simp add: tick_step_now del: tick_step_fields(1))
  moreover have "32 \<le> uint (now ?a - lastMeasureTemp s)"
    using due by (simp add: sample_due_iff del: tick_step_fields(1))
  moreover have "tick_of i \<le> 1"
    by (simp add: tick_of_def)
  ultimately have a32: "uint (now ?a - lastMeasureTemp s) = 32"
    using u by simp
  have ne: "\<not> press_edge i s"
    by (rule no_edge_when_none_kept [OF f0 f1])
  have nb: "now (before_input i s) = now ?a"
    by (simp add: before_input_def del: tick_step_fields(1))
  have d: "now ?d = now ?a" "lastHotTime ?d = lastMeasureTemp s"
    "hot ?d = 0" "fanOverride ?d = FAN_OVERRIDE_NONE"
    using before_decision_no_edge [OF ne] hb f0 lastHotTime_before_input_cool [OF hb] l nb
    by (simp_all del: tick_step_fields(1) before_input_fields(4))
  have "loop_body i s =
     (if uint (now ?d - lastHotTime ?d) < 125 then ?d\<lparr>PORTB := FAN_ON (PORTB ?d)\<rparr>
      else ?d\<lparr>PORTB := FAN_OFF (PORTB ?d), lastHotTime := rewound (now ?d)\<rparr>)"
    unfolding loop_body_def by (rule fan_decide_cool [OF d(4) d(3)])
  then have "loop_body i s = ?d\<lparr>PORTB := FAN_ON (PORTB ?d)\<rparr>"
    using a32 by (simp add: d(1) d(2) del: tick_step_fields(1))
  then show ?thesis
    using a32 d by (simp add: cooling_def del: tick_step_fields(1))
qed

text \<open>
  How far the cool-down falls short, in every run. Take a run from power-on to a
  state \<open>s0\<close> in which \<open>hot\<close> is set and there is no override, an iteration \<open>i0\<close>
  whose sample clears \<open>hot\<close> (at tick \<open>T = now s1\<close>), and any further iterations
  during which \<open>hot\<close> stays clear and there is no override. The sample that
  clears \<open>hot\<close> does not write \<open>lastHotTime\<close>: it still holds the tick of the
  previous sample, \<open>TEMP_MEASURE_INTERVAL = 32\<close> ticks before \<open>T\<close>, and line 181
  counts from there. So, \<open>k\<close> ticks after \<open>T\<close>, the fan pin is on exactly when
  \<open>k < FAN_COOL_TIME - TEMP_MEASURE_INTERVAL = 93\<close>: the fan runs 93 ticks after
  the sample that sees \<open>COOL_VAL\<close> exceeded, 32 ticks fewer than the
  \<open>FAN_COOL_TIME\<close> its comment at line 21 promises.
\<close>

theorem cool_down_window:
  assumes "s0 = run pre (init_state p)"
    and "hot s0 \<noteq> 0" and "fanOverride s0 = FAN_OVERRIDE_NONE"
    and "s1 = loop_body i0 s0"
    and "hot s1 = 0" and "fanOverride s1 = FAN_OVERRIDE_NONE"
    and "stays_cool is s1"
  shows "lastHotTime s1 = lastMeasureTemp s0
       \<and> uint (age (now s1) (lastHotTime s1)) = TEMP_MEASURE_INTERVAL
       \<and> now (run is s1) = now s1 + of_nat (ticks is)
       \<and> fan_is_on (PORTB (run is s1)) = (int (ticks is) < FAN_COOL_TIME - TEMP_MEASURE_INTERVAL)
       \<and> FAN_COOL_TIME - TEMP_MEASURE_INTERVAL = 93"
proof -
  have r: "sampled_recently s0"
    unfolding assms(1) by (rule sampled_recently_run [OF sampled_recently_init])
  have st: "cooling 32 s1 \<and> lastHotTime s1 = lastMeasureTemp s0"
    using assms(5,6) unfolding assms(4) by (intro cooling_starts [OF r assms(2,3)])
  then have c: "cooling 32 s1"
    by (rule conjunct1)
  then have a: "uint (age (now s1) (lastHotTime s1)) = 32"
    by (simp add: cooling_def age_eq)
  have "cooling (32 + ticks is) (run is s1)"
    by (rule cooling_run [OF c assms(7)])
  then have "fan_is_on (PORTB (run is s1)) = (ticks is < 93)"
    by (auto simp: cooling_def split: if_splits)
  then show ?thesis
    using st a by (simp add: run_now FAN_COOL_TIME_def TEMP_MEASURE_INTERVAL_def)
qed

theorem cool_down_window_witness:
  "hot (run (replicate 63 tick_hot) (init_state 0)) \<noteq> 0
   \<and> hot (loop_body tick_cold (run (replicate 63 tick_hot) (init_state 0))) = 0
   \<and> now (loop_body tick_cold (run (replicate 63 tick_hot) (init_state 0))) = 64
   \<and> ticks (replicate 92 tick_cold) = 92
   \<and> fan_is_on (PORTB (run (replicate 92 tick_cold)
        (loop_body tick_cold (run (replicate 63 tick_hot) (init_state 0)))))
   \<and> ticks (replicate 93 tick_cold) = 93
   \<and> \<not> fan_is_on (PORTB (run (replicate 93 tick_cold)
        (loop_body tick_cold (run (replicate 63 tick_hot) (init_state 0)))))"
proof -
  let ?s0 = "run (replicate 63 tick_hot) (init_state 0)"
  let ?s1 = "loop_body tick_cold ?s0"
  have h2: "hot ?s0 \<noteq> 0" and h3: "fanOverride ?s0 = FAN_OVERRIDE_NONE"
    and h5: "hot ?s1 = 0" and h6: "fanOverride ?s1 = FAN_OVERRIDE_NONE"
    and n: "now ?s1 = 64"
    by code_simp+
  have q92: "stays_cool (replicate 92 tick_cold) ?s1"
    by code_simp
  have q93: "stays_cool (replicate 93 tick_cold) ?s1"
    by code_simp
  have t92: "ticks (replicate 92 tick_cold) = 92" and t93: "ticks (replicate 93 tick_cold) = 93"
    by code_simp+
  show ?thesis
    using cool_down_window [OF refl h2 h3 refl h5 h6 q92]
      cool_down_window [OF refl h2 h3 refl h5 h6 q93] h2 h5 n t92 t93
    by (simp add: FAN_COOL_TIME_def TEMP_MEASURE_INTERVAL_def)
qed

text \<open>
  C2. The claim, and the comment on \<open>FAN_COOL_TIME\<close> at line 21 (keep the fan on
  for this much longer after \<open>COOL_VAL\<close> has been reached): when a sample at tick
  \<open>T\<close> clears \<open>hot\<close> and there is no override, the fan stays on at every tick
  from \<open>T\<close> up to but not including \<open>T + FAN_COOL_TIME\<close>. The code does not do
  that. In this run from power-on, 63 iterations have hot readings, so that the
  sample at tick 32 sets \<open>hot\<close>; the sample at tick \<open>T = 64\<close> reads cold and
  clears it; the readings stay cold and the button is never pressed. At tick 157,
  which is \<open>T + 93\<close> and before \<open>T + FAN_COOL_TIME = 189\<close>, the fan pin is already
  off.
\<close>

theorem cool_down_ends_early:
  "hot (run (replicate 63 tick_hot) (init_state 0)) \<noteq> 0
   \<and> fanOverride (run (replicate 63 tick_hot) (init_state 0)) = FAN_OVERRIDE_NONE
   \<and> hot (run (replicate 63 tick_hot @ [tick_cold]) (init_state 0)) = 0
   \<and> now (run (replicate 63 tick_hot @ [tick_cold]) (init_state 0)) = 64
   \<and> fanOverride (run (replicate 63 tick_hot @ [tick_cold]) (init_state 0)) = FAN_OVERRIDE_NONE
   \<and> stays_cool (replicate 93 tick_cold)
        (run (replicate 63 tick_hot @ [tick_cold]) (init_state 0))
   \<and> now (run (replicate 63 tick_hot @ [tick_cold] @ replicate 93 tick_cold) (init_state 0))
        = 157
   \<and> (157 :: int) < 64 + FAN_COOL_TIME
   \<and> \<not> fan_is_on (PORTB
        (run (replicate 63 tick_hot @ [tick_cold] @ replicate 93 tick_cold) (init_state 0)))"
  by code_simp

section \<open>The diagnostic blink loop\<close>

lemma unat_succ_u16: "unat (i :: u16) < 65535 \<Longrightarrow> unat (i + 1) = unat i + 1"
proof -
  assume a: "unat i < 65535"
  have "unat (i + 1) = (unat i + 1) mod 65536"
    by (simp add: unat_word_ariths)
  also have "\<dots> = unat i + 1"
    by (rule mod_less) (use a in simp)
  finally show ?thesis .
qed

lemma succ_nonzero_u16: "unat (i :: u16) < 65535 \<Longrightarrow> i + 1 \<noteq> 0"
proof
  assume "unat i < 65535" and "i + 1 = 0"
  then have "unat i + 1 = unat (0 :: u16)"
    using unat_succ_u16 [of i] by simp
  then show False by simp
qed

lemma mod_step: "(e :: nat) mod m = x mod m \<Longrightarrow> (e + c) mod m = (x + c) mod m"
  by (rule mod_add_cong) simp_all

lemma blink_inv_step:
  assumes "blink_inv p n d"
  shows "blink_inv p (Suc n) (diag_step d)"
proof (cases "d_phase d")
  case Delay_2000ms
  show ?thesis
  proof (cases "unat (d_i d) < 20000")
    case True
    then have s: "unat (d_i d + 1) = unat (d_i d) + 1" and nz: "d_i d + 1 \<noteq> 0"
      using unat_succ_u16 [of "d_i d"] succ_nonzero_u16 [of "d_i d"] by simp_all
    have m: "(d_elapsed_us d + 100) mod 2500000 = (100 * unat (d_i d) + 100) mod 2500000"
      using assms Delay_2000ms by (intro mod_step) (simp add: blink_inv_def)
    show ?thesis
      using assms Delay_2000ms True s nz m
      by (auto simp: blink_inv_def diag_step_def delay_us_def WDT_INT_RESET_def
          split: if_splits)
  next
    case False
    then have "unat (d_i d) = 20000" "d_i d \<noteq> 0"
      using assms Delay_2000ms by (auto simp: blink_inv_def)
    then show ?thesis
      using assms Delay_2000ms
      by (simp add: blink_inv_def diag_step_def)
  qed
next
  case Delay_500ms
  show ?thesis
  proof (cases "unat (d_i d) < 5000")
    case True
    then have s: "unat (d_i d + 1) = unat (d_i d) + 1" and nz: "d_i d + 1 \<noteq> 0"
      using unat_succ_u16 [of "d_i d"] succ_nonzero_u16 [of "d_i d"] by simp_all
    have m: "(d_elapsed_us d + 100) mod 2500000
        = (2000000 + 100 * unat (d_i d) + 100) mod 2500000"
      using assms Delay_500ms by (intro mod_step) (simp add: blink_inv_def)
    have dv: "(d_elapsed_us d + 100) div 100 = d_elapsed_us d div 100 + 1"
      by simp
    show ?thesis
      using assms Delay_500ms True s nz m dv
      by (auto simp: blink_inv_def diag_step_def delay_us_def WDT_INT_RESET_def
          add.assoc split: if_splits)
  next
    case False
    then have "unat (d_i d) = 5000" "d_i d \<noteq> 0"
      using assms Delay_500ms by (auto simp: blink_inv_def)
    then show ?thesis
      using assms Delay_500ms
      by (simp add: blink_inv_def diag_step_def)
  qed
qed

lemma blink_inv_exec:
  "blink_inv p n d \<Longrightarrow>
   \<exists>d'. exec is (Diagnostic d) = Diagnostic d' \<and> blink_inv p (n + length is) d'"
proof (induction "is" arbitrary: n d)
  case Nil
  then show ?case by simp
next
  case (Cons i "is")
  have "blink_inv p (Suc n) (diag_step d)"
    by (rule blink_inv_step [OF Cons.prems])
  from Cons.IH [OF this] show ?case by simp
qed

lemma blink_inv_start:
  "blink_inv p 0 \<lparr>d_phase = Delay_2000ms, d_i = 0, d_PORTB = p,
     d_elapsed_us = 0, d_since_wdt_us = 0\<rparr>"
  by (simp add: blink_inv_def)

lemma control_loop_exec: "in_control_loop c \<Longrightarrow> in_control_loop (exec is c)"
proof (induction "is" arbitrary: c)
  case Nil
  then show ?case by simp
next
  case (Cons i "is")
  then show ?case by (cases c) simp_all
qed

lemma blink_inv_progress:
  assumes "blink_inv p n d"
  shows "100 * (n div 2) \<le> d_elapsed_us d"
proof -
  have "n \<le> 2 * (d_elapsed_us d div 100) + 1"
    using assms by (simp add: blink_inv_def split: if_splits)
  then have "n div 2 \<le> d_elapsed_us d div 100"
    by simp
  then have "100 * (n div 2) \<le> 100 * (d_elapsed_us d div 100)"
    by simp
  also have "\<dots> \<le> d_elapsed_us d"
    by simp
  finally show ?thesis .
qed

lemma blink_inv_on:
  assumes "blink_inv p n d" and "2000000 < d_elapsed_us d mod 2500000"
  shows "fan_is_on (d_PORTB d)"
proof (cases "d_phase d")
  case Delay_2000ms
  then have i: "unat (d_i d) \<le> 20000"
    and m: "d_elapsed_us d mod 2500000 = (100 * unat (d_i d)) mod 2500000"
    using assms(1) by (simp_all add: blink_inv_def)
  have "(100 * unat (d_i d)) mod 2500000 = 100 * unat (d_i d)"
    by (rule mod_less) (use i in simp)
  then have False
    using assms(2) m i by simp
  then show ?thesis ..
next
  case Delay_500ms
  then show ?thesis
    using assms(1) by (simp add: blink_inv_def)
qed

lemma blink_inv_off:
  assumes "blink_inv p n d"
    and "\<not> fan_is_on p \<or> 2000000 < d_elapsed_us d"
    and "0 < d_elapsed_us d mod 2500000" and "d_elapsed_us d mod 2500000 < 2000000"
  shows "\<not> fan_is_on (d_PORTB d)"
proof (cases "d_phase d")
  case Delay_2000ms
  then have i: "unat (d_i d) \<le> 20000"
    and f: "fan_is_on (d_PORTB d) \<Longrightarrow> fan_is_on p \<and> d_elapsed_us d = 100 * unat (d_i d)"
    using assms(1) by (simp_all add: blink_inv_def split: if_splits)
  show ?thesis
  proof
    assume on: "fan_is_on (d_PORTB d)"
    then have "d_elapsed_us d \<le> 2000000"
      using f i by simp
    then show False
      using assms(2) f on by simp
  qed
next
  case Delay_500ms
  then have i: "unat (d_i d) \<le> 5000"
    and m: "d_elapsed_us d mod 2500000 = (2000000 + 100 * unat (d_i d)) mod 2500000"
    using assms(1) by (simp_all add: blink_inv_def)
  have False
  proof (cases "unat (d_i d) = 5000")
    case True
    then show False using m assms(3) by simp
  next
    case False
    have "(2000000 + 100 * unat (d_i d)) mod 2500000 = 2000000 + 100 * unat (d_i d)"
      by (rule mod_less) (use i False in simp)
    then show False using m assms(4) by simp
  qed
  then show ?thesis ..
qed

text \<open>
  C9. \<open>get_rstflr\<close> leaves the reset flags in \<open>rstflr_mirror\<close>. If the mirror has
  \<open>WDRF\<close> set, \<open>main\<close> is in the blink loop from the start and after any number of
  steps, never in the control loop; if \<open>WDRF\<close> is clear it is in the control loop
  from the start and after any number of steps, never in the blink loop. In the
  blink loop, with time counted as the sum of the \<open>_delay_us\<close> arguments: the last
  \<open>WDT_INT_RESET()\<close> is never more than 100 us in the past, well within the 60 ms
  watchdog period; at least every other step is a delay of 100 us, so time grows
  without bound and the loop never ends; and the fan pin is a function of the
  time modulo 2.5 s: off during the first 2 s of each period (from the first
  period on when the pin is low at entry, which is the reset value of \<open>PORTB\<close>,
  and from the second period on in any case), on during the remaining 0.5 s.
\<close>

theorem watchdog_reset_blink_loop:
  "rstflr_mirror (get_rstflr r) = RSTFLR r
   \<and> power_up r p = main_start (RSTFLR r) p
   \<and> (mirror AND BV WDRF \<noteq> 0 \<longrightarrow> \<not> in_control_loop (exec is (main_start mirror p)))
   \<and> (mirror AND BV WDRF = 0 \<longrightarrow> in_control_loop (exec is (main_start mirror p)))
   \<and> (exec is (main_start mirror p) = Diagnostic d \<longrightarrow>
        d_since_wdt_us d \<le> 100 \<and> 100 \<le> WDTO_60MS_us
        \<and> 100 * (length is div 2) \<le> d_elapsed_us d
        \<and> (2000000 < d_elapsed_us d mod 2500000 \<longrightarrow> fan_is_on (d_PORTB d))
        \<and> ((\<not> fan_is_on p \<or> 2000000 < d_elapsed_us d)
            \<and> 0 < d_elapsed_us d mod 2500000 \<and> d_elapsed_us d mod 2500000 < 2000000
            \<longrightarrow> \<not> fan_is_on (d_PORTB d)))"
proof -
  let ?d0 = "\<lparr>d_phase = Delay_2000ms, d_i = 0, d_PORTB = p,
     d_elapsed_us = 0, d_since_wdt_us = 0\<rparr>"
  have hook: "rstflr_mirror (get_rstflr r) = RSTFLR r \<and> power_up r p = main_start (RSTFLR r) p"
    by (simp add: get_rstflr_def power_up_def)
  have clear: "in_control_loop (exec is (main_start mirror p))" if "mirror AND BV WDRF = 0"
    using that by (intro control_loop_exec) (simp add: main_start_def)
  have set: "\<exists>d'. exec is (main_start mirror p) = Diagnostic d' \<and> blink_inv p (length is) d'"
    if "mirror AND BV WDRF \<noteq> 0"
    using that blink_inv_exec [OF blink_inv_start] by (simp add: main_start_def)
  have never: "\<not> in_control_loop (exec is (main_start mirror p))" if "mirror AND BV WDRF \<noteq> 0"
    using set [OF that] by auto
  have inv: "blink_inv p (length is) d" if "exec is (main_start mirror p) = Diagnostic d"
  proof (cases "mirror AND BV WDRF = 0")
    case True
    then show ?thesis using clear that by simp
  next
    case False
    then show ?thesis using set that by auto
  qed
  have body: "d_since_wdt_us d \<le> 100 \<and> 100 \<le> WDTO_60MS_us
        \<and> 100 * (length is div 2) \<le> d_elapsed_us d
        \<and> (2000000 < d_elapsed_us d mod 2500000 \<longrightarrow> fan_is_on (d_PORTB d))
        \<and> ((\<not> fan_is_on p \<or> 2000000 < d_elapsed_us d)
            \<and> 0 < d_elapsed_us d mod 2500000 \<and> d_elapsed_us d mod 2500000 < 2000000
            \<longrightarrow> \<not> fan_is_on (d_PORTB d))"
    if "exec is (main_start mirror p) = Diagnostic d"
  proof -
    note i = inv [OF that]
    have "d_since_wdt_us d \<le> 100"
      using i by (simp add: blink_inv_def)
    moreover have "100 \<le> WDTO_60MS_us"
      by (simp add: WDTO_60MS_us_def)
    moreover note blink_inv_progress [OF i]
    moreover have "2000000 < d_elapsed_us d mod 2500000 \<longrightarrow> fan_is_on (d_PORTB d)"
      using blink_inv_on [OF i] by blast
    moreover have "(\<not> fan_is_on p \<or> 2000000 < d_elapsed_us d)
            \<and> 0 < d_elapsed_us d mod 2500000 \<and> d_elapsed_us d mod 2500000 < 2000000
            \<longrightarrow> \<not> fan_is_on (d_PORTB d)"
      using blink_inv_off [OF i] by blast
    ultimately show ?thesis by blast
  qed
  show ?thesis
    using hook clear never body by blast
qed

theorem watchdog_reset_blink_loop_witness:
  "(8 :: u8) AND BV WDRF \<noteq> 0
   \<and> \<not> in_control_loop (exec [tick_cold, tick_hot, tick_press] (main_start 8 0))
   \<and> (0 :: u8) AND BV WDRF = 0
   \<and> in_control_loop (exec [tick_cold, tick_hot, tick_press] (main_start 0 0))
   \<and> exec [tick_cold, tick_hot, tick_press] (main_start 8 0)
       = Diagnostic \<lparr>d_phase = Delay_2000ms, d_i = 3, d_PORTB = 0,
           d_elapsed_us = 300, d_since_wdt_us = 100\<rparr>
   \<and> \<not> fan_is_on (0 :: u8)
   \<and> \<not> fan_is_on (d_PORTB \<lparr>d_phase = Delay_2000ms, d_i = 3, d_PORTB = 0,
           d_elapsed_us = 300, d_since_wdt_us = 100\<rparr>)
   \<and> rstflr_mirror (get_rstflr \<lparr>RSTFLR = 8, rstflr_mirror = 0\<rparr>) = 8"
proof -
  let ?d = "\<lparr>d_phase = Delay_2000ms, d_i = 3, d_PORTB = 0,
           d_elapsed_us = 300, d_since_wdt_us = 100\<rparr>"
  let ?r = "\<lparr>RSTFLR = 8, rstflr_mirror = 0\<rparr>"
  have h1: "(8 :: u8) AND BV WDRF \<noteq> 0" and h2: "(0 :: u8) AND BV WDRF = 0"
    by (simp_all add: BV_def WDRF_def)
  have h3: "exec [tick_cold, tick_hot, tick_press] (main_start 8 0) = Diagnostic ?d"
    by (simp add: main_start_def BV_def WDRF_def diag_step_def delay_us_def WDT_INT_RESET_def)
  have h4: "\<not> fan_is_on (0 :: u8)"
    by (simp add: fan_is_on_def)
  have h5: "0 < d_elapsed_us ?d mod 2500000 \<and> d_elapsed_us ?d mod 2500000 < 2000000"
    by simp
  have a: "\<not> in_control_loop (exec [tick_cold, tick_hot, tick_press] (main_start 8 0))
      \<and> \<not> fan_is_on (d_PORTB ?d)"
    using watchdog_reset_blink_loop [of ?r 0 8 "[tick_cold, tick_hot, tick_press]" ?d] h1 h3 h4 h5
    by blast
  have b: "in_control_loop (exec [tick_cold, tick_hot, tick_press] (main_start 0 0))
      \<and> rstflr_mirror (get_rstflr ?r) = RSTFLR ?r"
    using watchdog_reset_blink_loop [of ?r 0 0 "[tick_cold, tick_hot, tick_press]" ?d] h2
    by blast
  have c: "rstflr_mirror (get_rstflr ?r) = 8"
    using b by simp
  show ?thesis
    using a b c h1 h2 h3 h4 by blast
qed

end
